theory Spec2Isabelle
  imports Main
begin

section \<open>Squares, pieces and moves\<close>

text \<open>
  The file \<open>uci.cpp\<close> uses the declarations of \<open>types.h\<close> (Square, File, Rank, PieceType,
  MoveType, Move and their accessors), which are not among the sources; they are modelled
  from the data model of the specification.
\<close>

text \<open>
  Modelled from the spec: \<open>Square\<close> of \<open>types.h\<close> is missing. A square is one of 64
  squares, here its index \<open>0..63\<close> (a1 = 0, b1 = 1, ..., h8 = 63), made of a file
  \<open>a..h\<close> (\<open>0..7\<close>) and a rank \<open>1..8\<close> (\<open>0..7\<close>).
\<close>

type_synonym Square = nat

text \<open>Modelled from the spec: \<open>file_of\<close> of \<open>types.h\<close> is missing; the file of a square.\<close>

definition file_of :: "Square \<Rightarrow> nat" where
  "file_of s = s mod 8"

text \<open>Modelled from the spec: \<open>rank_of\<close> of \<open>types.h\<close> is missing; the rank of a square.\<close>

definition rank_of :: "Square \<Rightarrow> nat" where
  "rank_of s = s div 8"

text \<open>
  Modelled from the spec: \<open>make_square\<close> of \<open>types.h\<close> is missing; the square of a file
  and a rank.
\<close>

definition make_square :: "nat \<Rightarrow> nat \<Rightarrow> Square" where
  "make_square f r = r * 8 + f"

text \<open>Modelled from the spec: the constant \<open>FILE_C\<close> of \<open>types.h\<close> is missing; the file c.\<close>

definition FILE_C :: nat where
  "FILE_C = 2"

text \<open>Modelled from the spec: the constant \<open>FILE_G\<close> of \<open>types.h\<close> is missing; the file g.\<close>

definition FILE_G :: nat where
  "FILE_G = 6"

text \<open>
  Modelled from the spec: \<open>PieceType\<close> of \<open>types.h\<close> is missing; the piece types, in the
  order in which the literal \<open>" pnbrqk"\<close> of \<open>UCI::move\<close> is indexed by them.
\<close>

datatype PieceType = NO_PIECE_TYPE | PAWN | KNIGHT | BISHOP | ROOK | QUEEN | KING

text \<open>
  Modelled from the spec: the integer value of a \<open>PieceType\<close>, by which \<open>UCI::move\<close>
  indexes the literal \<open>" pnbrqk"\<close>.
\<close>

fun piece_index :: "PieceType \<Rightarrow> nat" where
  "piece_index NO_PIECE_TYPE = 0"
| "piece_index PAWN = 1"
| "piece_index KNIGHT = 2"
| "piece_index BISHOP = 3"
| "piece_index ROOK = 4"
| "piece_index QUEEN = 5"
| "piece_index KING = 6"

text \<open>
  Modelled from the spec: \<open>MoveType\<close> of \<open>types.h\<close> is missing; the special-move kinds
  normal, promotion, en-passant capture and castling.
\<close>

datatype MoveType = NORMAL | PROMOTION | ENPASSANT | CASTLING

text \<open>
  Modelled from the spec: \<open>Move\<close> of \<open>types.h\<close> and its accessors \<open>from_sq\<close>, \<open>to_sq\<close>,
  \<open>type_of\<close> and \<open>promotion_type\<close> are missing. A Move is an encoded (origin square,
  destination square, special-move kind, promotion piece) tuple.
\<close>

record Move =
  from_sq :: Square
  to_sq :: Square
  type_of :: MoveType
  promotion_type :: PieceType

text \<open>
  Modelled from the spec: the sentinel \<open>MOVE_NONE\<close> of \<open>types.h\<close> is missing; a
  distinguished value of the tuple type (origin = destination = a1) that the enumeration
  of the legal moves never produces.
\<close>

definition MOVE_NONE :: Move where
  "MOVE_NONE = \<lparr>from_sq = 0, to_sq = 0, type_of = NORMAL, promotion_type = KNIGHT\<rparr>"

text \<open>
  Modelled from the spec: the sentinel \<open>MOVE_NULL\<close> of \<open>types.h\<close> is missing; the
  distinguished "null move" value (origin = destination = b1).
\<close>

definition MOVE_NULL :: Move where
  "MOVE_NULL = \<lparr>from_sq = 1, to_sq = 1, type_of = NORMAL, promotion_type = KNIGHT\<rparr>"

section \<open>The move and square codec\<close>

text \<open>\<open>UCI::square\<close>: the two characters \<open>'a' + file\<close> and \<open>'1' + rank\<close>.\<close>

definition square :: "Square \<Rightarrow> string" where
  "square s = [char_of (97 + file_of s), char_of (49 + rank_of s)]"

text \<open>
  \<open>UCI::move\<close>: the sentinels first, then origin and destination, the destination of a
  castling move rewritten outside Chess960 mode, and the promotion letter.
\<close>

definition move :: "Move \<Rightarrow> bool \<Rightarrow> string" where
  "move m chess960 =
     (let from = from_sq m;
          to = to_sq m
      in if m = MOVE_NONE then ''(none)''
         else if m = MOVE_NULL then ''0000''
         else
           let to = (if type_of m = CASTLING \<and> \<not> chess960
                     then make_square (if to > from then FILE_G else FILE_C) (rank_of from)
                     else to);
               mv = square from @ square to
           in if type_of m = PROMOTION
              then mv @ ['' pnbrqk'' ! piece_index (promotion_type m)]
              else mv)"

text \<open>\<open>tolower\<close> of the C locale: the letters A..Z are moved to a..z.\<close>

definition tolower :: "char \<Rightarrow> char" where
  "tolower c =
     (if (65::nat) \<le> of_char c \<and> of_char c \<le> (90::nat)
      then char_of (of_char c + (32::nat)) else c)"

section \<open>The external collaborators\<close>

text \<open>
  Position, StateInfo, the legal move generator and the conversion of an option to a
  flag are not among the sources: they are parameters of the model. \<open>pos_set\<close> is
  \<open>Position::set\<close> (it returns the position and the root StateInfo it has filled),
  \<open>do_move\<close> is \<open>Position::do_move\<close> (it returns the new position and the StateInfo it has
  filled), \<open>legal_moves\<close> is \<open>MoveList<LEGAL>\<close>, and \<open>option_bool\<close> reads an entry of
  the Option Store as a flag.
\<close>

record ('p, 'si) engine =
  pos_set :: "string \<Rightarrow> bool \<Rightarrow> 'p \<times> 'si"
  do_move :: "'p \<Rightarrow> Move \<Rightarrow> 'p \<times> 'si"
  legal_moves :: "'p \<Rightarrow> Move list"
  is_chess960 :: "'p \<Rightarrow> bool"
  option_bool :: "string option \<Rightarrow> bool"

text \<open>
  \<open>UCI::to_move\<close>. The string is passed by reference and its fifth character is
  overwritten, so the string is returned with the move. The loop over the legal moves is
  \<open>to_move_scan\<close>.
\<close>

fun to_move_scan :: "bool \<Rightarrow> string \<Rightarrow> Move list \<Rightarrow> Move" where
  "to_move_scan chess960 str [] = MOVE_NONE"
| "to_move_scan chess960 str (m # ms) =
     (if str = move m chess960 then m else to_move_scan chess960 str ms)"

definition to_move :: "('p, 'si) engine \<Rightarrow> 'p \<Rightarrow> string \<Rightarrow> Move \<times> string" where
  "to_move E pos str =
     (let str = (if length str = 5 then str[4 := tolower (str ! 4)] else str)
      in (to_move_scan (is_chess960 E pos) str (legal_moves E pos), str))"

section \<open>The command handlers\<close>

text \<open>
  Modelled from the spec: \<open>OptionsMap\<close> of \<open>uci.h\<close> is missing; the Option Store is a flat
  table from names to value strings (field \<open>Options\<close>), and an assignment to an entry
  overwrites its value. The other fields are the globals of \<open>uci.cpp\<close>: the list of
  position states \<open>States\<close> and the output written so far.
\<close>

record 'si globals =
  States :: "'si list"
  Options :: "string \<rightharpoonup> string"
  cout :: string

text \<open>
  An \<open>istringstream\<close> is the list of the whitespace-delimited tokens not yet read.
  \<open>is >> token\<close> removes the first of them; at the end of the input it fails and leaves
  the variable as it was.
\<close>

fun extract_token :: "string \<Rightarrow> string list \<Rightarrow> string \<times> string list" where
  "extract_token token [] = (token, [])"
| "extract_token token (t # ts) = (t, ts)"

definition StartFEN :: string where
  "StartFEN = ''3r3k/p5pp/8/8/5P2/3Qp1P1/P2p3P/3R2K1 b - - 0 33''"

text \<open>The loop of \<open>position\<close> that reassembles the FEN up to the token \<open>moves\<close>.\<close>

fun read_fen :: "string \<Rightarrow> string list \<Rightarrow> string \<times> string list" where
  "read_fen fen [] = (fen, [])"
| "read_fen fen (token # ts) =
     (if token \<noteq> ''moves'' then read_fen (fen @ token @ '' '') ts else (fen, ts))"

text \<open>The loop of \<open>position\<close> that decodes and plays the moves.\<close>

fun replay :: "('p, 'si) engine \<Rightarrow> 'p \<Rightarrow> 'si list \<Rightarrow> string list \<Rightarrow> 'p \<times> 'si list" where
  "replay E pos states [] = (pos, states)"
| "replay E pos states (token # ts) =
     (let m = fst (to_move E pos token)
      in if m \<noteq> MOVE_NONE
         then (let (pos', si) = do_move E pos m in replay E pos' (states @ [si]) ts)
         else (pos, states))"

text \<open>
  \<open>position\<close>, from the point where the FEN is known: a new one-entry list of states,
  \<open>Position::set\<close> with the flag of the option \<open>UCI_Chess960\<close>, then the moves.
\<close>

definition position_setup ::
  "('p, 'si) engine \<Rightarrow> 'p \<times> 'si globals \<Rightarrow> string \<Rightarrow> string list \<Rightarrow> 'p \<times> 'si globals" where
  "position_setup E pg fen ts =
     (let (pos0, si0) = pos_set E fen (option_bool E (Options (snd pg) ''UCI_Chess960''));
          (pos', states') = replay E pos0 [si0] ts
      in (pos', (snd pg)\<lparr>States := states'\<rparr>))"

text \<open>\<open>position\<close>: the position is passed by reference, so it is returned with the globals.\<close>

definition position ::
  "('p, 'si) engine \<Rightarrow> 'p \<times> 'si globals \<Rightarrow> string list \<Rightarrow> 'p \<times> 'si globals" where
  "position E pg ts =
     (let (token, ts1) = extract_token [] ts
      in if token = ''startpos''
         then (let fen = StartFEN;
                   (token', ts2) = extract_token token ts1
               in position_setup E pg fen ts2)
         else if token = ''fen''
         then (let (fen, ts2) = read_fen [] ts1 in position_setup E pg fen ts2)
         else pg)"

text \<open>The two loops of \<open>setoption\<close> that reassemble the name and the value.\<close>

fun read_name :: "string \<Rightarrow> string list \<Rightarrow> string \<times> string list" where
  "read_name name [] = (name, [])"
| "read_name name (token # ts) =
     (if token \<noteq> ''value''
      then read_name (name @ (if name = [] then [] else '' '') @ token) ts
      else (name, ts))"

fun read_value :: "string \<Rightarrow> string list \<Rightarrow> string" where
  "read_value val [] = val"
| "read_value val (token # ts) =
     read_value (val @ (if val = [] then [] else '' '') @ token) ts"

definition endl :: char where
  "endl = CHR 0x0A"

definition setoption :: "'si globals \<Rightarrow> string list \<Rightarrow> 'si globals" where
  "setoption g ts =
     (let (token, ts1) = extract_token [] ts;
          (name, ts2) = read_name [] ts1;
          val = read_value [] ts2
      in if Options g name \<noteq> None
         then g\<lparr>Options := (Options g)(name \<mapsto> val)\<rparr>
         else g\<lparr>cout := cout g @ ''No such option: '' @ name @ [endl]\<rparr>)"

text \<open>
  \<open>go\<close>, up to the call of the search: the FEN is written between double quotes, the
  list of states is replaced and a local position is set from the FEN. The result is the
  globals and the arguments handed to \<open>Threads.start_thinking\<close> (the position, the states
  and the start time); the search itself is not among the sources.
\<close>

record ('p, 'si) search_call =
  search_pos :: 'p
  search_states :: "'si list"
  startTime :: int

definition kDoubleQuote :: char where
  "kDoubleQuote = CHR 0x22"

definition kSpace :: char where
  "kSpace = CHR '' ''"

definition go ::
  "('p, 'si) engine \<Rightarrow> int \<Rightarrow> 'si globals \<Rightarrow> string \<Rightarrow> 'si globals \<times> ('p, 'si) search_call" where
  "go E now g fen =
     (let out = cout g @ [kDoubleQuote] @ fen @ [kDoubleQuote] @ [kSpace];
          (pos, si0) = pos_set E fen False;
          states = [si0]
      in (g\<lparr>States := states, cout := out\<rparr>,
          \<lparr>search_pos = pos, search_states = states, startTime = now\<rparr>))"

section \<open>The score formatter\<close>

text \<open>
  The constants \<open>VALUE_MATE\<close>, \<open>VALUE_INFINITE\<close>, \<open>MAX_PLY\<close> and \<open>PawnValueEg\<close> are declared in
  \<open>types.h\<close>, which is not among the sources: they are parameters.
\<close>

record value_consts =
  VALUE_MATE :: int
  VALUE_INFINITE :: int
  MAX_PLY :: int
  PawnValueEg :: int

text \<open>The division of C++ on \<open>int\<close> truncates towards zero.\<close>

definition cdiv :: "int \<Rightarrow> int \<Rightarrow> int" where
  "cdiv a b = sgn a * sgn b * (\<bar>a\<bar> div \<bar>b\<bar>)"

text \<open>An \<open>int\<close> written to a stream: its decimal digits, after a minus sign if negative.\<close>

function ostream_nat :: "nat \<Rightarrow> string" where
  "ostream_nat n =
     (if n < 10 then [char_of (48 + n)]
      else ostream_nat (n div 10) @ [char_of (48 + n mod 10)])"
  by pat_completeness auto
termination
  by (relation "measure id") auto

declare ostream_nat.simps [simp del]

definition ostream_int :: "int \<Rightarrow> string" where
  "ostream_int i = (if i < 0 then CHR ''-'' # ostream_nat (nat (- i)) else ostream_nat (nat i))"

text \<open>
  \<open>UCI::value\<close>. The assertion on the argument is a branch of its own: \<open>None\<close> is the
  failed assertion.
\<close>

definition uci_value :: "value_consts \<Rightarrow> int \<Rightarrow> string option" where
  "uci_value K v =
     (if \<not> (- VALUE_INFINITE K < v \<and> v < VALUE_INFINITE K) then None
      else if \<bar>v\<bar> < VALUE_MATE K - MAX_PLY K
      then Some (''cp '' @ ostream_int (cdiv (v * 100) (PawnValueEg K)))
      else Some (''mate '' @
             ostream_int (cdiv (if v > 0 then VALUE_MATE K - v + 1 else - VALUE_MATE K - v) 2)))"

section \<open>Notions used to state the properties\<close>

text \<open>
  The decoder as the specification words it: the input with the last character of a
  five-character string in lower case, and the first legal move whose text is that
  string, or the sentinel "none".
\<close>

definition lower_fifth :: "string \<Rightarrow> string" where
  "lower_fifth str = (if length str = 5 then take 4 str @ [tolower (last str)] else str)"

definition first_match :: "('p, 'si) engine \<Rightarrow> 'p \<Rightarrow> string \<Rightarrow> Move" where
  "first_match E pos str =
     (case find (\<lambda>m. move m (is_chess960 E pos) = str) (legal_moves E pos) of
        Some m \<Rightarrow> m
      | None \<Rightarrow> MOVE_NONE)"

text \<open>
  What the round trip asks of the move generator: the squares of a legal move are among
  the 64 squares of the board, and the legal moves of a position are told apart by their
  origin, destination and promotion piece (\<open>move_key\<close>).
\<close>

definition on_board :: "Move \<Rightarrow> bool" where
  "on_board m = (from_sq m < 64 \<and> to_sq m < 64)"

definition move_key :: "Move \<Rightarrow> Square \<times> Square \<times> PieceType option" where
  "move_key m =
     (from_sq m, to_sq m, if type_of m = PROMOTION then Some (promotion_type m) else None)"

text \<open>
  The destination square that \<open>UCI::move\<close> writes: the king's target square for a castling
  move outside Chess960 mode, the encoded destination otherwise.
\<close>

definition written_to :: "Move \<Rightarrow> bool \<Rightarrow> Square" where
  "written_to m chess960 =
     (if type_of m = CASTLING \<and> \<not> chess960
      then make_square (if to_sq m > from_sq m then FILE_G else FILE_C) (rank_of (from_sq m))
      else to_sq m)"

text \<open>
  The tokens a stream yields are not empty and hold no whitespace (\<open>isspace\<close> of the C
  locale: the space and the characters 9 to 13).
\<close>

definition isspace :: "char \<Rightarrow> bool" where
  "isspace c = (of_char c = (32::nat) \<or> ((9::nat) \<le> of_char c \<and> of_char c \<le> (13::nat)))"

definition is_token :: "string \<Rightarrow> bool" where
  "is_token t = (t \<noteq> [] \<and> list_all (\<lambda>c. \<not> isspace c) t)"

text \<open>
  The tokens of a line of text, as repeated \<open>is >> token\<close> reads them: whitespace is
  skipped, then the characters up to the next whitespace are one token.
\<close>

function tokens :: "string \<Rightarrow> string list" where
  "tokens s =
     (let s' = dropWhile isspace s
      in if s' = [] then []
         else takeWhile (\<lambda>c. \<not> isspace c) s' #
              tokens (dropWhile (\<lambda>c. \<not> isspace c) s'))"
  by pat_completeness auto
termination
proof (relation "measure length")
  show "wf (measure length)" by simp
next
  fix s s' :: string
  assume s': "s' = dropWhile isspace s" and ne: "s' \<noteq> []"
  then have "\<not> isspace (hd s')"
    using hd_dropWhile by metis
  then have "length (dropWhile (\<lambda>c. \<not> isspace c) s') < length s'"
    using ne by (cases s') (auto simp: le_imp_less_Suc length_dropWhile_le)
  moreover have "length s' \<le> length s"
    using s' by (simp add: length_dropWhile_le)
  ultimately show "(dropWhile (\<lambda>c. \<not> isspace c) s', s) \<in> measure length"
    by simp
qed

declare tokens.simps [simp del]

text \<open>
  The name and the value of a \<open>setoption\<close> command as the specification words them: the
  words after the first token up to the keyword \<open>value\<close>, and the words after it, each
  sequence joined by single spaces.
\<close>

fun join_words :: "string list \<Rightarrow> string" where
  "join_words [] = []"
| "join_words [w] = w"
| "join_words (w # v # ws) = w @ '' '' @ join_words (v # ws)"

definition option_name :: "string list \<Rightarrow> string" where
  "option_name ts = join_words (takeWhile (\<lambda>t. t \<noteq> ''value'') (tl ts))"

definition option_value :: "string list \<Rightarrow> string" where
  "option_value ts = join_words (tl (dropWhile (\<lambda>t. t \<noteq> ''value'') (tl ts)))"

text \<open>
  \<open>play_all\<close> decodes and plays every token of a list: \<open>None\<close> if one of them does not
  decode to a legal move of the position reached, else the final position and the
  StateInfo of each move.
\<close>

fun play_all :: "('p, 'si) engine \<Rightarrow> 'p \<Rightarrow> string list \<Rightarrow> ('p \<times> 'si list) option" where
  "play_all E pos [] = Some (pos, [])"
| "play_all E pos (t # ts) =
     (let m = fst (to_move E pos t)
      in if m = MOVE_NONE then None
         else (case play_all E (fst (do_move E pos m)) ts of
                 None \<Rightarrow> None
               | Some (pos', sis) \<Rightarrow> Some (pos', snd (do_move E pos m) # sis)))"

section \<open>Concrete inputs\<close>

text \<open>Some moves: e2-e4, e7-e5, d2-d4, the promotion a7-a8=Q and the castling e1xh1.\<close>

definition e2e4 :: Move where
  "e2e4 = \<lparr>from_sq = 12, to_sq = 28, type_of = NORMAL, promotion_type = KNIGHT\<rparr>"

definition e7e5 :: Move where
  "e7e5 = \<lparr>from_sq = 52, to_sq = 36, type_of = NORMAL, promotion_type = KNIGHT\<rparr>"

definition d2d4 :: Move where
  "d2d4 = \<lparr>from_sq = 11, to_sq = 27, type_of = NORMAL, promotion_type = KNIGHT\<rparr>"

definition a7a8q :: Move where
  "a7a8q = \<lparr>from_sq = 48, to_sq = 56, type_of = PROMOTION, promotion_type = QUEEN\<rparr>"

definition castle_e1h1 :: Move where
  "castle_e1h1 = \<lparr>from_sq = 4, to_sq = 7, type_of = CASTLING, promotion_type = KNIGHT\<rparr>"

text \<open>
  A small engine to run the handlers on: a position is the list of the moves played, a
  StateInfo is the number of its ply, and the legal moves are e2-e4 and d2-d4 at the
  start, e7-e5 after e2-e4 and none elsewhere.
\<close>

definition stub_engine :: "(Move list, nat) engine" where
  "stub_engine =
     \<lparr>pos_set = (\<lambda>fen chess960. ([], 0)),
      do_move = (\<lambda>pos m. (pos @ [m], Suc (length pos))),
      legal_moves = (\<lambda>pos. if pos = [] then [e2e4, d2d4]
                            else if pos = [e2e4] then [e7e5] else []),
      is_chess960 = (\<lambda>pos. False),
      option_bool = (\<lambda>v. v = Some ''true'')\<rparr>"

text \<open>The same engine with a promotion and a castling move among the legal moves.\<close>

definition stub_engine2 :: "(Move list, nat) engine" where
  "stub_engine2 = stub_engine\<lparr>legal_moves := (\<lambda>pos. [e2e4, a7a8q, castle_e1h1])\<rparr>"

text \<open>
  An engine with two legal moves that are written alike outside Chess960 mode: the king
  move f1-g1 and the castling f1xh1, in the order in which a move generator lists them
  (king moves before castling). Both are legal when a king on f1 has the right to castle
  with the rook on h1, as after \<open>position fen 4k3/8/8/8/8/8/8/5K1R w K - 0 1\<close> with the
  option \<open>UCI_Chess960\<close> off.
\<close>

definition king_f1g1 :: Move where
  "king_f1g1 = \<lparr>from_sq = 5, to_sq = 6, type_of = NORMAL, promotion_type = KNIGHT\<rparr>"

definition castle_f1h1 :: Move where
  "castle_f1h1 = \<lparr>from_sq = 5, to_sq = 7, type_of = CASTLING, promotion_type = KNIGHT\<rparr>"

definition stub_engine3 :: "(Move list, nat) engine" where
  "stub_engine3 = stub_engine\<lparr>legal_moves := (\<lambda>pos. [king_f1g1, castle_f1h1])\<rparr>"

text \<open>The same two legal moves in Chess960 mode.\<close>

definition stub_engine960 :: "(Move list, nat) engine" where
  "stub_engine960 = stub_engine3\<lparr>is_chess960 := (\<lambda>pos. True)\<rparr>"

text \<open>
  An engine whose position is what \<open>Position::set\<close> was given: the FEN and the Chess960
  flag. It has no legal moves.
\<close>

definition flag_engine :: "(string \<times> bool, unit) engine" where
  "flag_engine =
     \<lparr>pos_set = (\<lambda>fen chess960. ((fen, chess960), ())),
      do_move = (\<lambda>pos m. (pos, ())),
      legal_moves = (\<lambda>pos. []),
      is_chess960 = (\<lambda>pos. snd pos),
      option_bool = (\<lambda>v. v = Some ''true'')\<rparr>"

text \<open>Globals in which the option \<open>UCI_Chess960\<close> is set.\<close>

definition chess960_globals :: "unit globals" where
  "chess960_globals =
     \<lparr>States = [()], Options = [''UCI_Chess960'' \<mapsto> ''true''], cout = []\<rparr>"

text \<open>Globals with two registered options and nothing written yet.\<close>

definition stub_globals :: "nat globals" where
  "stub_globals =
     \<lparr>States = [0],
      Options = [''UCI_Chess960'' \<mapsto> ''false'', ''Hash'' \<mapsto> ''16''],
      cout = []\<rparr>"

text \<open>
  Constants for the score formatter: the example of the specification
  (\<open>VALUE_MATE = 32000\<close>, \<open>MAX_PLY = 246\<close>), with a bound above the mate value and a pawn
  value.
\<close>

definition stub_consts :: value_consts where
  "stub_consts =
     \<lparr>VALUE_MATE = 32000, VALUE_INFINITE = 32001, MAX_PLY = 246, PawnValueEg = 248\<rparr>"

section \<open>The text of a move\<close>

lemma length_square: "length (square s) = 2"
  by (simp add: square_def)

lemma tolower_promotion_letter:
  "tolower ('' pnbrqk'' ! piece_index p) = '' pnbrqk'' ! piece_index p"
  by (cases p) (simp_all add: tolower_def)

lemma move_cases:
  "move m c = ''(none)'' \<or> move m c = ''0000'' \<or>
   (\<exists>t. move m c = square (from_sq m) @ square t) \<or>
   (\<exists>t. move m c =
      square (from_sq m) @ square t @ ['' pnbrqk'' ! piece_index (promotion_type m)])"
  by (auto simp: move_def Let_def)

text \<open>The lower-casing of \<open>UCI::to_move\<close> leaves the text of every move as it is.\<close>

lemma move_normalised:
  "(if length (move m c) = 5 then (move m c)[4 := tolower (move m c ! 4)] else move m c) =
   move m c"
  using move_cases [of m c]
  by (auto simp: length_square nth_append tolower_promotion_letter list_update_append)

lemma move_not_zzzz: "move m c \<noteq> ''zzzz''"
  using move_cases [of m c]
  by (auto simp: square_def file_of_def char_of_eq_iff take_bit_eq_mod)

lemma move_e2e4: "move e2e4 False = ''e2e4''"
  by (simp add: move_def e2e4_def MOVE_NONE_def MOVE_NULL_def square_def file_of_def
      rank_of_def char_of_eq_iff)

lemma move_d2d4: "move d2d4 False = ''d2d4''"
  by (simp add: move_def d2d4_def MOVE_NONE_def MOVE_NULL_def square_def file_of_def
      rank_of_def char_of_eq_iff)

lemma move_e7e5: "move e7e5 False = ''e7e5''"
  by (simp add: move_def e7e5_def MOVE_NONE_def MOVE_NULL_def square_def file_of_def
      rank_of_def char_of_eq_iff)

lemma move_a7a8q: "move a7a8q False = ''a7a8q''"
  by (simp add: move_def a7a8q_def MOVE_NONE_def MOVE_NULL_def square_def file_of_def
      rank_of_def char_of_eq_iff)

lemma move_castle_e1h1: "move castle_e1h1 False = ''e1g1''"
  by (simp add: move_def castle_e1h1_def MOVE_NONE_def MOVE_NULL_def square_def file_of_def
      rank_of_def make_square_def FILE_G_def char_of_eq_iff)

text \<open>
  Claim C5. The text of a castling move, which is encoded as "king takes own rook": outside
  Chess960 mode the destination is written as the king's target square, on the file g if
  the encoded destination is greater than the origin and on the file c otherwise, on the
  rank of the origin; in Chess960 mode the encoded destination is written as it is. The
  move king e1 takes rook h1 reads \<open>e1g1\<close> in the first mode and \<open>e1h1\<close> in the second.
\<close>

theorem move_castling:
  assumes "type_of m = CASTLING"
  shows "move m False =
           [char_of (97 + file_of (from_sq m)), char_of (49 + rank_of (from_sq m)),
            (if to_sq m > from_sq m then CHR ''g'' else CHR ''c''),
            char_of (49 + rank_of (from_sq m))]
         \<and> move m True = square (from_sq m) @ square (to_sq m)"
  using assms
  by (auto simp: move_def Let_def MOVE_NONE_def MOVE_NULL_def square_def make_square_def
      file_of_def rank_of_def FILE_G_def FILE_C_def char_of_eq_iff)

theorem move_castling_witness:
  "type_of castle_e1h1 = CASTLING \<and> move castle_e1h1 False = ''e1g1'' \<and>
   move castle_e1h1 True = ''e1h1''"
proof -
  have c: "type_of castle_e1h1 = CASTLING"
    by (simp add: castle_e1h1_def)
  from move_castling [OF c] show ?thesis
    by (simp add: castle_e1h1_def square_def file_of_def rank_of_def char_of_eq_iff)
qed

text \<open>The 64 squares are written with 64 different texts.\<close>

theorem square_inj:
  assumes "s < 64" and "t < 64" and "square s = square t"
  shows "s = t"
proof -
  have "of_char (char_of (97 + s mod 8) :: char) = (of_char (char_of (97 + t mod 8) :: char) :: nat)"
    and "of_char (char_of (49 + s div 8) :: char) = (of_char (char_of (49 + t div 8) :: char) :: nat)"
    using assms(3) by (simp_all add: square_def file_of_def rank_of_def)
  then have "s mod 8 = t mod 8" and "s div 8 = t div 8"
    using assms(1,2) by (simp_all add: of_char_of)
  then show ?thesis
    by (metis div_mult_mod_eq)
qed

theorem square_inj_witness:
  "square 4 = ''e1'' \<and> square 60 = ''e8'' \<and> square 4 \<noteq> square 60"
proof -
  have "square 4 \<noteq> square 60"
    using square_inj [of 4 60] by auto
  then show ?thesis
    by (simp add: square_def file_of_def rank_of_def char_of_eq_iff)
qed

section \<open>Decoding a move\<close>

lemma to_move_scan_find:
  "to_move_scan c str ms =
     (case find (\<lambda>m. move m c = str) ms of Some m \<Rightarrow> m | None \<Rightarrow> MOVE_NONE)"
  by (induction ms) auto

lemma to_move_scan_unique:
  "m \<in> set ms \<Longrightarrow> \<forall>m'\<in>set ms. move m' c = move m c \<longrightarrow> m' = m \<Longrightarrow>
   to_move_scan c (move m c) ms = m"
  by (induction ms) auto

lemma to_move_scan_zzzz: "to_move_scan c ''zzzz'' ms = MOVE_NONE"
  by (induction ms) (auto simp: move_not_zzzz [symmetric])

lemma to_move_zzzz: "fst (to_move E pos ''zzzz'') = MOVE_NONE"
  by (simp add: to_move_def to_move_scan_zzzz)

lemma length5_cases: "length str = 5 \<Longrightarrow> \<exists>a b c d e. str = [a, b, c, d, e]"
  by (auto simp: length_Suc_conv numeral_eq_Suc)

lemma lower_fifth_update:
  "length str = 5 \<Longrightarrow> str[4 := tolower (str ! 4)] = take 4 str @ [tolower (last str)]"
  by (drule length5_cases) auto

lemma square_eq_iff: "s < 64 \<Longrightarrow> t < 64 \<Longrightarrow> (square s = square t) = (s = t)"
proof
  assume b: "s < 64" "t < 64" and e: "square s = square t"
  have "of_char (char_of (97 + s mod 8) :: char) = (of_char (char_of (97 + t mod 8) :: char) :: nat)"
    and "of_char (char_of (49 + s div 8) :: char) = (of_char (char_of (49 + t div 8) :: char) :: nat)"
    using e by (simp_all add: square_def file_of_def rank_of_def)
  then have "s mod 8 = t mod 8" and "s div 8 = t div 8"
    using b by (simp_all add: of_char_of)
  then show "s = t"
    by (metis div_mult_mod_eq)
qed simp

lemma letter_inj:
  "'' pnbrqk'' ! piece_index p = '' pnbrqk'' ! piece_index q \<Longrightarrow> p = q"
  by (cases p; cases q) simp_all

lemma written_to_board:
  assumes "on_board m"
  shows "written_to m c < 64"
proof -
  have "from_sq m < 64" and "to_sq m < 64"
    using assms by (simp_all add: on_board_def)
  then have "from_sq m div 8 < 8" and "to_sq m < 64"
    by presburger+
  then show ?thesis
    by (simp add: written_to_def make_square_def rank_of_def FILE_G_def FILE_C_def)
qed

lemma move_text:
  "m \<noteq> MOVE_NONE \<Longrightarrow> m \<noteq> MOVE_NULL \<Longrightarrow>
   move m c = square (from_sq m) @ square (written_to m c) @
     (if type_of m = PROMOTION then ['' pnbrqk'' ! piece_index (promotion_type m)] else [])"
  by (simp add: move_def written_to_def Let_def)

lemma square_append_not_sentinel:
  "square s @ xs \<noteq> ''(none)''" "square s @ xs \<noteq> ''0000''"
  by (simp_all add: square_def file_of_def char_of_eq_iff take_bit_eq_mod)

lemma null_not_none: "MOVE_NULL \<noteq> MOVE_NONE"
  by (simp add: MOVE_NONE_def MOVE_NULL_def)

lemma move_none_text: "(move m c = ''(none)'') = (m = MOVE_NONE)"
proof (cases "m = MOVE_NONE \<or> m = MOVE_NULL")
  case True
  then show ?thesis by (auto simp: move_def Let_def null_not_none)
next
  case False
  then show ?thesis
    using square_append_not_sentinel(1) by (simp add: move_text)
qed

lemma move_null_text: "m \<noteq> MOVE_NONE \<Longrightarrow> (move m c = ''0000'') = (m = MOVE_NULL)"
proof (cases "m = MOVE_NULL")
  case True
  then show ?thesis by (simp add: move_def Let_def null_not_none)
next
  case False
  assume "m \<noteq> MOVE_NONE"
  then show ?thesis
    using False square_append_not_sentinel(2) by (simp add: move_text)
qed

text \<open>Two moves on the board with the same text.\<close>

lemma move_eq_text:
  assumes eq: "move m c = move m' c" and b: "on_board m" and b': "on_board m'"
  shows "m = m' \<or>
         (from_sq m = from_sq m' \<and> written_to m c = written_to m' c \<and>
          snd (snd (move_key m)) = snd (snd (move_key m')))"
proof (cases "m = MOVE_NONE \<or> m = MOVE_NULL \<or> m' = MOVE_NONE \<or> m' = MOVE_NULL")
  case True
  then have "m = m'"
    using eq move_none_text [of m c] move_none_text [of m' c]
      move_null_text [of m c] move_null_text [of m' c]
    by metis
  then show ?thesis by simp
next
  case False
  then have t: "move m c = square (from_sq m) @ square (written_to m c) @
        (if type_of m = PROMOTION then ['' pnbrqk'' ! piece_index (promotion_type m)] else [])"
    and t': "move m' c = square (from_sq m') @ square (written_to m' c) @
        (if type_of m' = PROMOTION then ['' pnbrqk'' ! piece_index (promotion_type m')] else [])"
    by (simp_all add: move_text)
  have parts: "square (from_sq m) = square (from_sq m')"
    "square (written_to m c) = square (written_to m' c)"
    "(if type_of m = PROMOTION then ['' pnbrqk'' ! piece_index (promotion_type m)] else []) =
     (if type_of m' = PROMOTION then ['' pnbrqk'' ! piece_index (promotion_type m')] else [])"
    using eq unfolding t t' by (simp_all add: length_square)
  have "from_sq m = from_sq m'"
    using parts(1) b b' by (simp add: square_eq_iff on_board_def)
  moreover have "written_to m c = written_to m' c"
    using parts(2) written_to_board [OF b] written_to_board [OF b'] by (simp add: square_eq_iff)
  moreover have "snd (snd (move_key m)) = snd (snd (move_key m'))"
    using parts(3) by (auto simp: move_key_def dest: letter_inj split: if_splits)
  ultimately show ?thesis by simp
qed

text \<open>
  Claim C2, as amended. Decoding the text of a legal move gives the move back: for every
  legal move \<open>m\<close> of a position \<open>pos\<close> whose legal moves are on the board and told apart by
  origin, destination and promotion piece, \<open>UCI::to_move\<close> applied to the text of \<open>m\<close> in
  the Chess960 mode of \<open>pos\<close> returns \<open>m\<close>. In Chess960 mode this holds for every legal
  move. Outside Chess960 mode it holds unless a castling move is involved in a collision:
  \<open>m\<close> and another legal move from the same origin, one of them a castling move, are
  written with the same destination.
\<close>

theorem to_move_roundtrip:
  assumes legal: "m \<in> set (legal_moves E pos)"
    and board: "list_all on_board (legal_moves E pos)"
    and apart: "inj_on move_key (set (legal_moves E pos))"
    and carve: "is_chess960 E pos \<or>
      (\<forall>m'\<in>set (legal_moves E pos).
         m' \<noteq> m \<longrightarrow> from_sq m' = from_sq m \<longrightarrow>
         type_of m = CASTLING \<or> type_of m' = CASTLING \<longrightarrow>
         written_to m' False \<noteq> written_to m False)"
  shows "fst (to_move E pos (move m (is_chess960 E pos))) = m"
proof -
  let ?c = "is_chess960 E pos"
  have unique: "\<forall>m'\<in>set (legal_moves E pos). move m' ?c = move m ?c \<longrightarrow> m' = m"
  proof (intro ballI impI)
    fix m'
    assume in': "m' \<in> set (legal_moves E pos)" and eq: "move m' ?c = move m ?c"
    have b: "on_board m" and b': "on_board m'"
      using board legal in' by (simp_all add: list_all_iff)
    show "m' = m"
    proof (rule ccontr)
      assume ne: "m' \<noteq> m"
      then have same: "from_sq m' = from_sq m" "written_to m' ?c = written_to m ?c"
        "snd (snd (move_key m')) = snd (snd (move_key m))"
        using move_eq_text [OF eq b' b] by simp_all
      have plain: "written_to m' ?c = to_sq m' \<and> written_to m ?c = to_sq m \<Longrightarrow> False"
      proof -
        assume "written_to m' ?c = to_sq m' \<and> written_to m ?c = to_sq m"
        then have "move_key m' = move_key m"
          using same by (simp add: move_key_def)
        then show False
          using apart in' legal ne by (auto dest: inj_onD)
      qed
      show False
      proof (cases ?c)
        case True
        then show False using plain by (simp add: written_to_def)
      next
        case False
        show False
        proof (cases "type_of m = CASTLING \<or> type_of m' = CASTLING")
          case True
          then show False
            using carve False in' ne same by auto
        next
          case no: False
          then show False using plain by (simp add: written_to_def)
        qed
      qed
    qed
  qed
  show ?thesis
    using legal unique by (simp add: to_move_def move_normalised to_move_scan_unique Let_def)
qed


text \<open>
  In Chess960 mode the castling f1xh1 is decoded from \<open>f1h1\<close> although the king move f1-g1
  is legal too; outside Chess960 mode the castling e1xh1 is decoded from \<open>e1g1\<close> where no
  other legal move leaves e1.
\<close>

theorem to_move_roundtrip_witness:
  "is_chess960 stub_engine960 []
   \<and> fst (to_move stub_engine960 [] ''f1h1'') = castle_f1h1
   \<and> \<not> is_chess960 stub_engine2 []
   \<and> fst (to_move stub_engine2 [] ''e1g1'') = castle_e1h1"
proof -
  have mode1: "is_chess960 stub_engine960 []"
    by (simp add: stub_engine960_def)
  have legal1: "legal_moves stub_engine960 [] = [king_f1g1, castle_f1h1]"
    by (simp add: stub_engine960_def stub_engine3_def stub_engine_def)
  have in1: "castle_f1h1 \<in> set (legal_moves stub_engine960 [])"
    by (simp add: legal1)
  have board1: "list_all on_board (legal_moves stub_engine960 [])"
    by (simp add: legal1 on_board_def king_f1g1_def castle_f1h1_def)
  have apart1: "inj_on move_key (set (legal_moves stub_engine960 []))"
    by (simp add: legal1 move_key_def king_f1g1_def castle_f1h1_def)
  have carve1: "is_chess960 stub_engine960 [] \<or>
      (\<forall>m'\<in>set (legal_moves stub_engine960 []).
         m' \<noteq> castle_f1h1 \<longrightarrow> from_sq m' = from_sq castle_f1h1 \<longrightarrow>
         type_of castle_f1h1 = CASTLING \<or> type_of m' = CASTLING \<longrightarrow>
         written_to m' False \<noteq> written_to castle_f1h1 False)"
    using mode1 by simp
  have text1: "move castle_f1h1 True = ''f1h1''"
    by (simp add: move_def castle_f1h1_def MOVE_NONE_def MOVE_NULL_def square_def file_of_def
        rank_of_def char_of_eq_iff)
  have mode2: "\<not> is_chess960 stub_engine2 []"
    by (simp add: stub_engine2_def stub_engine_def)
  have legal2: "legal_moves stub_engine2 [] = [e2e4, a7a8q, castle_e1h1]"
    by (simp add: stub_engine2_def stub_engine_def)
  have in2: "castle_e1h1 \<in> set (legal_moves stub_engine2 [])"
    by (simp add: legal2)
  have board2: "list_all on_board (legal_moves stub_engine2 [])"
    by (simp add: legal2 on_board_def e2e4_def a7a8q_def castle_e1h1_def)
  have apart2: "inj_on move_key (set (legal_moves stub_engine2 []))"
    by (simp add: legal2 move_key_def e2e4_def a7a8q_def castle_e1h1_def)
  have carve2: "is_chess960 stub_engine2 [] \<or>
      (\<forall>m'\<in>set (legal_moves stub_engine2 []).
         m' \<noteq> castle_e1h1 \<longrightarrow> from_sq m' = from_sq castle_e1h1 \<longrightarrow>
         type_of castle_e1h1 = CASTLING \<or> type_of m' = CASTLING \<longrightarrow>
         written_to m' False \<noteq> written_to castle_e1h1 False)"
    by (simp add: legal2 e2e4_def a7a8q_def castle_e1h1_def)
  have r1: "fst (to_move stub_engine960 [] ''f1h1'') = castle_f1h1"
    using to_move_roundtrip [OF in1 board1 apart1 carve1] mode1 by (simp add: text1)
  have r2: "fst (to_move stub_engine2 [] ''e1g1'') = castle_e1h1"
    using to_move_roundtrip [OF in2 board2 apart2 carve2] mode2 by (simp add: move_castle_e1h1)
  show ?thesis
    using mode1 mode2 r1 r2 by simp
qed

text \<open>
  The claim without the exception fails: outside Chess960 mode the castling f1xh1 is
  written \<open>f1g1\<close>, as the king move f1-g1 is. Where both are legal (the two moves are on
  the board and differ in their destination) the text of the castling move decodes to the
  king move, which the scan meets first.
\<close>

theorem to_move_roundtrip_counterexample:
  "castle_f1h1 \<in> set (legal_moves stub_engine3 [])
   \<and> list_all on_board (legal_moves stub_engine3 [])
   \<and> inj_on move_key (set (legal_moves stub_engine3 []))
   \<and> is_chess960 stub_engine3 [] = False
   \<and> move castle_f1h1 False = ''f1g1''
   \<and> fst (to_move stub_engine3 [] (move castle_f1h1 False)) = king_f1g1
   \<and> king_f1g1 \<noteq> castle_f1h1"
proof -
  have k: "move king_f1g1 False = ''f1g1''"
    by (simp add: move_def king_f1g1_def MOVE_NONE_def MOVE_NULL_def square_def file_of_def
        rank_of_def char_of_eq_iff)
  have c: "move castle_f1h1 False = ''f1g1''"
    by (simp add: move_def castle_f1h1_def MOVE_NONE_def MOVE_NULL_def square_def file_of_def
        rank_of_def make_square_def FILE_G_def char_of_eq_iff)
  have differ: "king_f1g1 \<noteq> castle_f1h1"
    by (simp add: king_f1g1_def castle_f1h1_def)
  have legal: "legal_moves stub_engine3 [] = [king_f1g1, castle_f1h1]"
    by (simp add: stub_engine3_def stub_engine_def)
  have board: "list_all on_board (legal_moves stub_engine3 [])"
    by (simp add: legal on_board_def king_f1g1_def castle_f1h1_def)
  have apart: "inj_on move_key (set (legal_moves stub_engine3 []))"
    by (simp add: legal move_key_def king_f1g1_def castle_f1h1_def)
  have mode: "is_chess960 stub_engine3 [] = False"
    by (simp add: stub_engine3_def stub_engine_def)
  have first: "fst (to_move stub_engine3 [] (move castle_f1h1 False)) = king_f1g1"
    by (simp add: to_move_def legal mode k c)
  show ?thesis
    using differ board apart mode c first by (simp add: legal)
qed

text \<open>
  Claim C6. \<open>UCI::to_move\<close> puts the fifth character of a string of length exactly five in
  lower case, then returns the first move of the list of legal moves whose text, in the
  Chess960 mode of the position, is that string, and the sentinel \<open>MOVE_NONE\<close> when no
  legal move has that text; it checks nothing else. The string, passed by reference, is
  left in its lower-cased form.
\<close>

theorem to_move_first_match:
  "to_move E pos str = (first_match E pos (lower_fifth str), lower_fifth str)"
  by (simp add: to_move_def first_match_def lower_fifth_def to_move_scan_find Let_def
      lower_fifth_update)

theorem to_move_first_match_witness:
  "to_move stub_engine2 [] ''a7a8Q'' = (a7a8q, ''a7a8q'') \<and>
   to_move stub_engine2 [] ''e1g1'' = (castle_e1h1, ''e1g1'') \<and>
   to_move stub_engine2 [] ''e1h1'' = (MOVE_NONE, ''e1h1'')"
proof -
  have mode: "is_chess960 stub_engine2 [] = False"
    by (simp add: stub_engine2_def stub_engine_def)
  have legal: "legal_moves stub_engine2 [] = [e2e4, a7a8q, castle_e1h1]"
    by (simp add: stub_engine2_def stub_engine_def)
  have low: "tolower CHR ''Q'' = CHR ''q''"
    by (simp add: tolower_def char_of_eq_iff)
  show ?thesis
    using to_move_first_match [of stub_engine2 "[]" "''a7a8Q''"]
      to_move_first_match [of stub_engine2 "[]" "''e1g1''"]
      to_move_first_match [of stub_engine2 "[]" "''e1h1''"]
    by (simp add: low first_match_def mode legal move_e2e4 move_a7a8q move_castle_e1h1
        lower_fifth_def)
qed

text \<open>
  The scan is the only legality filter: what \<open>UCI::to_move\<close> returns is a legal move of
  the position or the sentinel.
\<close>

theorem to_move_legal_or_none:
  "fst (to_move E pos str) = MOVE_NONE \<or> fst (to_move E pos str) \<in> set (legal_moves E pos)"
proof -
  have "to_move_scan c s ms = MOVE_NONE \<or> to_move_scan c s ms \<in> set ms" for c s ms
    by (induction ms) auto
  then show ?thesis by (simp add: to_move_def Let_def)
qed

text \<open>
  Every legal move of a position is decoded from its own text exactly when no two legal
  moves of the position are written alike.
\<close>

theorem to_move_roundtrip_iff:
  "(\<forall>m\<in>set (legal_moves E pos). fst (to_move E pos (move m (is_chess960 E pos))) = m) =
   inj_on (\<lambda>m. move m (is_chess960 E pos)) (set (legal_moves E pos))"
proof -
  have scan: "(\<forall>m\<in>set ms. to_move_scan c (move m c) ms = m) = inj_on (\<lambda>m. move m c) (set ms)"
    for c ms
  proof
    assume rt: "\<forall>m\<in>set ms. to_move_scan c (move m c) ms = m"
    show "inj_on (\<lambda>m. move m c) (set ms)"
    proof (rule inj_onI)
      fix x y
      assume "x \<in> set ms" and "y \<in> set ms" and "move x c = move y c"
      then show "x = y" using rt by metis
    qed
  next
    assume inj: "inj_on (\<lambda>m. move m c) (set ms)"
    show "\<forall>m\<in>set ms. to_move_scan c (move m c) ms = m"
    proof
      fix m
      assume m: "m \<in> set ms"
      then have "\<forall>m'\<in>set ms. move m' c = move m c \<longrightarrow> m' = m"
        using inj by (auto dest: inj_onD)
      then show "to_move_scan c (move m c) ms = m"
        using m by (rule to_move_scan_unique [rotated])
    qed
  qed
  show ?thesis
    by (simp add: to_move_def move_normalised Let_def scan)
qed

text \<open>
  With the king move f1-g1 and the castling f1xh1 both legal outside Chess960 mode, the
  text of the castling move decodes to the king move.
\<close>

theorem to_move_roundtrip_iff_witness:
  "fst (to_move stub_engine3 [] (move castle_f1h1 False)) = king_f1g1
   \<and> \<not> inj_on (\<lambda>m. move m (is_chess960 stub_engine3 []))
          (set (legal_moves stub_engine3 []))"
proof -
  have mode: "is_chess960 stub_engine3 [] = False"
    by (simp add: stub_engine3_def stub_engine_def)
  have legal: "legal_moves stub_engine3 [] = [king_f1g1, castle_f1h1]"
    by (simp add: stub_engine3_def stub_engine_def)
  have k: "move king_f1g1 False = ''f1g1''"
    by (simp add: move_def king_f1g1_def MOVE_NONE_def MOVE_NULL_def square_def file_of_def
        rank_of_def char_of_eq_iff)
  have c: "move castle_f1h1 False = ''f1g1''"
    by (simp add: move_def castle_f1h1_def MOVE_NONE_def MOVE_NULL_def square_def file_of_def
        rank_of_def make_square_def FILE_G_def char_of_eq_iff)
  have first: "fst (to_move stub_engine3 [] (move castle_f1h1 False)) = king_f1g1"
    by (simp add: to_move_def mode legal k c)
  have differ: "king_f1g1 \<noteq> castle_f1h1"
    by (simp add: king_f1g1_def castle_f1h1_def)
  have "\<not> (\<forall>m\<in>set (legal_moves stub_engine3 []).
      fst (to_move stub_engine3 [] (move m (is_chess960 stub_engine3 []))) = m)"
    using first differ by (auto simp: legal mode)
  then have "\<not> inj_on (\<lambda>m. move m (is_chess960 stub_engine3 []))
      (set (legal_moves stub_engine3 []))"
    by (simp add: to_move_roundtrip_iff)
  then show ?thesis
    using first by simp
qed

section \<open>The position command\<close>

lemma position_startpos:
  "position E pg (''startpos'' # ts) = position_setup E pg StartFEN (tl ts)"
  by (cases ts) (simp_all add: position_def)

lemma position_fen:
  "position E pg (''fen'' # ts) =
     position_setup E pg (fst (read_fen [] ts)) (snd (read_fen [] ts))"
  by (simp add: position_def split: prod.split)

lemma read_fen_concat:
  "read_fen fen ts =
     (fen @ concat (map (\<lambda>t. t @ '' '') (takeWhile (\<lambda>t. t \<noteq> ''moves'') ts)),
      tl (dropWhile (\<lambda>t. t \<noteq> ''moves'') ts))"
  by (induction ts arbitrary: fen) auto

text \<open>
  The FEN of \<open>position fen\<close> is reassembled from the tokens up to the token \<open>moves\<close> or
  the end of the input, each followed by a space; the tokens after \<open>moves\<close> are the
  moves.
\<close>

theorem position_fen_reassembled:
  "position E pg (''fen'' # ts) =
     position_setup E pg
       (concat (map (\<lambda>t. t @ '' '') (takeWhile (\<lambda>t. t \<noteq> ''moves'') ts)))
       (tl (dropWhile (\<lambda>t. t \<noteq> ''moves'') ts))"
  by (simp add: position_fen read_fen_concat)

text \<open>
  Claim C9. A \<open>position\<close> command whose first argument is neither \<open>fen\<close> nor \<open>startpos\<close>, or
  that has no argument at all, changes nothing: the position, the list of states, the
  Option Store and the output are what they were.
\<close>

theorem position_noop:
  assumes "ts = [] \<or> (hd ts \<noteq> ''startpos'' \<and> hd ts \<noteq> ''fen'')"
  shows "position E pg ts = pg"
  using assms by (cases ts) (auto simp: position_def)

theorem position_noop_witness:
  "position stub_engine ([e2e4], stub_globals) [] = ([e2e4], stub_globals) \<and>
   position stub_engine ([e2e4], stub_globals) [''moves'', ''e7e5''] = ([e2e4], stub_globals)"
proof -
  have a: "([]::string list) = [] \<or> (hd [] \<noteq> ''startpos'' \<and> hd [] \<noteq> ''fen'')"
    by simp
  have b: "[''moves'', ''e7e5''] = [] \<or>
      (hd [''moves'', ''e7e5''] \<noteq> ''startpos'' \<and> hd [''moves'', ''e7e5''] \<noteq> ''fen'')"
    by simp
  show ?thesis
    using position_noop [OF a, of stub_engine "([e2e4], stub_globals)"]
      position_noop [OF b, of stub_engine "([e2e4], stub_globals)"]
    by simp
qed

text \<open>
  Claim C1. The command \<open>position startpos\<close> should set the position that
  \<open>position fen\<close> sets from the FEN of the initial position of chess. The code does not:
  its \<open>StartFEN\<close> is the FEN of a middle-game position with Black to move, so \<open>startpos\<close>
  hands that FEN to \<open>Position::set\<close>, while the \<open>fen\<close> branch hands over the FEN it was
  given (with a space after every field).
\<close>

theorem position_startpos_fen:
  "fst (position E pg [''startpos'']) =
     fst (pos_set E ''3r3k/p5pp/8/8/5P2/3Qp1P1/P2p3P/3R2K1 b - - 0 33''
            (option_bool E (Options (snd pg) ''UCI_Chess960'')))
   \<and> fst (position E pg [''fen'', ''rnbqkbnr/pppppppp/8/8/8/8/PPPPPPPP/RNBQKBNR'', ''w'',
                          ''KQkq'', ''-'', ''0'', ''1'']) =
     fst (pos_set E ''rnbqkbnr/pppppppp/8/8/8/8/PPPPPPPP/RNBQKBNR w KQkq - 0 1 ''
            (option_bool E (Options (snd pg) ''UCI_Chess960'')))
   \<and> StartFEN \<noteq> ''rnbqkbnr/pppppppp/8/8/8/8/PPPPPPPP/RNBQKBNR w KQkq - 0 1''"
  by (simp add: position_startpos position_fen position_setup_def StartFEN_def
      split: prod.split)

text \<open>
  Claim C7, at its example. After \<open>position startpos moves e2e4 e7e5 zzzz d2d4\<close> the list
  of states has one entry more than the number of moves played; \<open>zzzz\<close> is the text of no
  move, so \<open>d2d4\<close> is never played. The replay starts from the position of the code's
  \<open>StartFEN\<close>: the list has three entries only if \<open>e2e4\<close> is a legal move there and \<open>e7e5\<close>
  after it, and a single entry if \<open>e2e4\<close> is not.
\<close>

theorem position_replay_example:
  "length (States (snd (position E pg
       [''startpos'', ''moves'', ''e2e4'', ''e7e5'', ''zzzz'', ''d2d4'']))) =
     (let pos0 = fst (pos_set E ''3r3k/p5pp/8/8/5P2/3Qp1P1/P2p3P/3R2K1 b - - 0 33''
                        (option_bool E (Options (snd pg) ''UCI_Chess960'')));
          m1 = fst (to_move E pos0 ''e2e4'');
          m2 = fst (to_move E (fst (do_move E pos0 m1)) ''e7e5'')
      in if m1 = MOVE_NONE then 1 else if m2 = MOVE_NONE then 2 else 3)"
  by (simp add: position_startpos position_setup_def StartFEN_def Let_def to_move_zzzz
      split: prod.split)

lemma play_all_length: "play_all E pos ts = Some (pos', sis) \<Longrightarrow> length sis = length ts"
  by (induction ts arbitrary: pos pos' sis) (auto simp: Let_def split: if_splits option.splits)

lemma replay_play_all:
  assumes "play_all E pos ts = Some (pos', sis)"
    and "rest = [] \<or> fst (to_move E pos' (hd rest)) = MOVE_NONE"
  shows "replay E pos states (ts @ rest) = (pos', states @ sis)"
  using assms
proof (induction ts arbitrary: pos states sis)
  case Nil
  then show ?case by (cases rest) (auto simp: Let_def)
next
  case (Cons t ts)
  then show ?case
    by (auto simp: Let_def split: if_splits option.splits prod.splits)
qed

text \<open>
  The replay loop in general: when the tokens \<open>ts\<close> after \<open>moves\<close> decode and are played
  one after the other, and the input ends there or the next token does not decode, the
  loop stops there, with the moves of \<open>ts\<close> played and a list of states that has one
  entry more than the moves played.
\<close>

theorem position_replay_stops:
  assumes "play_all E
             (fst (pos_set E StartFEN (option_bool E (Options (snd pg) ''UCI_Chess960''))))
             ts = Some (pos', sis)"
    and "rest = [] \<or> fst (to_move E pos' (hd rest)) = MOVE_NONE"
  shows "fst (position E pg (''startpos'' # ''moves'' # ts @ rest)) = pos'
       \<and> length (States (snd (position E pg (''startpos'' # ''moves'' # ts @ rest)))) =
           1 + length ts"
  using replay_play_all [OF assms] play_all_length [OF assms(1)]
  by (simp add: position_startpos position_setup_def case_prod_beta)

text \<open>
  On an engine in which e2-e4 and then e7-e5 are legal from the position that is set, the
  example plays exactly these two moves and leaves three states.
\<close>

theorem position_replay_stops_witness:
  "fst (position stub_engine ([], stub_globals)
          [''startpos'', ''moves'', ''e2e4'', ''e7e5'', ''zzzz'', ''d2d4'']) = [e2e4, e7e5]
   \<and> length (States (snd (position stub_engine ([], stub_globals)
          [''startpos'', ''moves'', ''e2e4'', ''e7e5'', ''zzzz'', ''d2d4'']))) = 3"
proof -
  have t1: "fst (to_move stub_engine [] ''e2e4'') = e2e4"
    by (simp add: to_move_def stub_engine_def move_e2e4)
  have t2: "fst (to_move stub_engine [e2e4] ''e7e5'') = e7e5"
    by (simp add: to_move_def stub_engine_def move_e7e5)
  have n1: "e2e4 \<noteq> MOVE_NONE" by (simp add: e2e4_def MOVE_NONE_def)
  have n2: "e7e5 \<noteq> MOVE_NONE" by (simp add: e7e5_def MOVE_NONE_def)
  have p: "play_all stub_engine
      (fst (pos_set stub_engine StartFEN
         (option_bool stub_engine (Options (snd ([], stub_globals)) ''UCI_Chess960''))))
      [''e2e4'', ''e7e5''] = Some ([e2e4, e7e5], [1, 2])"
    using t1 t2 n1 n2 by (simp add: stub_engine_def Let_def)
  have r: "[''zzzz'', ''d2d4''] = [] \<or>
      fst (to_move stub_engine [e2e4, e7e5] (hd [''zzzz'', ''d2d4''])) = MOVE_NONE"
    by (simp add: to_move_zzzz)
  from position_replay_stops [OF p r] show ?thesis by simp
qed

section \<open>The go command\<close>

text \<open>
  Claim C10. \<open>go\<close> sets its position from the FEN with the Chess960 flag \<open>false\<close>, whatever
  the Option Store holds (a change of the store changes nothing but the store), while
  \<open>position\<close> passes the flag of the option \<open>UCI_Chess960\<close> to \<open>Position::set\<close>.
\<close>

theorem go_chess960_false:
  "search_pos (snd (go E now g fen)) = fst (pos_set E fen False)
   \<and> go E now (g\<lparr>Options := opts\<rparr>) fen =
       (fst (go E now g fen)\<lparr>Options := opts\<rparr>, snd (go E now g fen))
   \<and> fst (position E (pos, g) (''fen'' # ts)) =
       fst (replay E
             (fst (pos_set E (fst (read_fen [] ts)) (option_bool E (Options g ''UCI_Chess960''))))
             [snd (pos_set E (fst (read_fen [] ts)) (option_bool E (Options g ''UCI_Chess960'')))]
             (snd (read_fen [] ts)))"
  by (simp add: go_def Let_def position_fen position_setup_def split: prod.split)

theorem go_chess960_false_witness:
  "search_pos (snd (go flag_engine 0 chess960_globals ''8/8/8/8/8/8/8/K1k5 w - - 0 1'')) =
     (''8/8/8/8/8/8/8/K1k5 w - - 0 1'', False)
   \<and> fst (position flag_engine ((''p'', False), chess960_globals)
            [''fen'', ''8/8/8/8/8/8/8/K1k5'', ''w'', ''-'', ''-'', ''0'', ''1'']) =
     (''8/8/8/8/8/8/8/K1k5 w - - 0 1 '', True)"
  using go_chess960_false [of flag_engine 0 chess960_globals "''8/8/8/8/8/8/8/K1k5 w - - 0 1''"
      "Options chess960_globals" "(''p'', False)"
      "[''8/8/8/8/8/8/8/K1k5'', ''w'', ''-'', ''-'', ''0'', ''1'']"]
  by (simp add: flag_engine_def chess960_globals_def)

section \<open>The setoption command\<close>

text \<open>What a stream yields are tokens.\<close>

lemma tokens_are_tokens: "list_all is_token (tokens s)"
proof (induction s rule: tokens.induct)
  case (1 s)
  show ?case
  proof (cases "dropWhile isspace s = []")
    case True
    then show ?thesis by (subst tokens.simps) simp
  next
    case False
    then have "\<not> isspace (hd (dropWhile isspace s))"
      using hd_dropWhile by metis
    then have "takeWhile (\<lambda>c. \<not> isspace c) (dropWhile isspace s) \<noteq> []"
      using False by (cases "dropWhile isspace s") auto
    moreover have "list_all (\<lambda>c. \<not> isspace c)
        (takeWhile (\<lambda>c. \<not> isspace c) (dropWhile isspace s))"
      by (auto simp: list_all_iff dest: set_takeWhileD)
    ultimately have "is_token (takeWhile (\<lambda>c. \<not> isspace c) (dropWhile isspace s))"
      by (simp add: is_token_def)
    then show ?thesis
      using 1 False by (subst tokens.simps) (simp add: Let_def)
  qed
qed

lemma set_tl_subset: "set (tl xs) \<subseteq> set xs"
  by (cases xs) auto

lemma join_words_Cons:
  "join_words (w # ws) = (if ws = [] then w else w @ '' '' @ join_words ws)"
  by (cases ws) simp_all

text \<open>The loops of \<open>setoption\<close> join the words they read by single spaces.\<close>

lemma read_value_join:
  "[] \<notin> set ts \<Longrightarrow>
   read_value acc ts =
     (if ts = [] then acc else if acc = [] then join_words ts else acc @ '' '' @ join_words ts)"
proof (induction ts arbitrary: acc)
  case Nil
  then show ?case by simp
next
  case (Cons t ts)
  then show ?case by (auto simp: join_words_Cons)
qed

lemma read_name_join:
  "[] \<notin> set ts \<Longrightarrow>
   read_name acc ts =
     (let ws = takeWhile (\<lambda>t. t \<noteq> ''value'') ts
      in (if ws = [] then acc else if acc = [] then join_words ws else acc @ '' '' @ join_words ws,
          tl (dropWhile (\<lambda>t. t \<noteq> ''value'') ts)))"
proof (induction ts arbitrary: acc)
  case Nil
  then show ?case by simp
next
  case (Cons t ts)
  then show ?case by (auto simp: join_words_Cons Let_def)
qed

lemma setoption_parse:
  assumes "[] \<notin> set ts"
  shows "setoption g ts =
     (if Options g (option_name ts) \<noteq> None
      then g\<lparr>Options := (Options g)(option_name ts \<mapsto> option_value ts)\<rparr>
      else g\<lparr>cout := cout g @ ''No such option: '' @ option_name ts @ [endl]\<rparr>)"
proof (cases ts)
  case Nil
  then show ?thesis by (simp add: setoption_def option_name_def option_value_def)
next
  case (Cons t ts')
  then have ne: "[] \<notin> set ts'" using assms by simp
  have ne2: "[] \<notin> set (tl (dropWhile (\<lambda>t. t \<noteq> ''value'') ts'))"
    using ne set_tl_subset [of "dropWhile (\<lambda>t. t \<noteq> ''value'') ts'"]
    by (auto dest: set_dropWhileD)
  show ?thesis
    using Cons ne ne2
    by (auto simp: setoption_def option_name_def option_value_def read_name_join
        read_value_join Let_def)
qed

lemma join_words_chars: "set (join_words ws) \<subseteq> insert CHR '' '' (\<Union> (set ` set ws))"
  by (induction ws rule: join_words.induct) auto

lemma endl_not_in_token: "is_token t \<Longrightarrow> endl \<notin> set t"
  by (auto simp: is_token_def list_all_iff isspace_def endl_def)

lemma option_name_no_endl:
  assumes "list_all is_token ts"
  shows "endl \<notin> set (option_name ts)"
proof -
  have "set (takeWhile (\<lambda>t. t \<noteq> ''value'') (tl ts)) \<subseteq> set ts"
    using set_tl_subset [of ts] by (auto dest: set_takeWhileD)
  then have "\<forall>t\<in>set (takeWhile (\<lambda>t. t \<noteq> ''value'') (tl ts)). endl \<notin> set t"
    using assms endl_not_in_token by (auto simp: list_all_iff)
  moreover have "endl \<noteq> CHR '' ''" by (simp add: endl_def)
  ultimately show ?thesis
    using join_words_chars [of "takeWhile (\<lambda>t. t \<noteq> ''value'') (tl ts)"]
    by (auto simp: option_name_def)
qed

lemma tokens_nonempty: "list_all is_token ts \<Longrightarrow> [] \<notin> set ts"
  by (auto simp: list_all_iff is_token_def)

lemma count_list_absent: "x \<notin> set xs \<Longrightarrow> count_list xs x = 0"
  by (induction xs) auto

lemma diagnostic_one_line:
  assumes "endl \<notin> set name"
  shows "count_list (''No such option: '' @ name @ [endl]) endl = 1"
  using assms by (simp add: count_list_absent endl_def)

text \<open>
  Claim C8. A \<open>setoption\<close> command whose name is not in the Option Store writes one line,
  \<open>No such option:\<close> followed by the name, and leaves the Option Store as it was; when the
  name is in the store, the value of that entry becomes the value of the command, no entry
  is added and nothing is written.
\<close>

theorem setoption_unknown_or_known:
  assumes "list_all is_token ts"
  shows "(Options g (option_name ts) = None \<longrightarrow>
            setoption g ts = g\<lparr>cout := cout g @ ''No such option: '' @ option_name ts @ [endl]\<rparr>
          \<and> Options (setoption g ts) = Options g
          \<and> count_list (''No such option: '' @ option_name ts @ [endl]) endl = 1)
       \<and> (Options g (option_name ts) \<noteq> None \<longrightarrow>
            setoption g ts = g\<lparr>Options := (Options g)(option_name ts \<mapsto> option_value ts)\<rparr>
          \<and> dom (Options (setoption g ts)) = dom (Options g)
          \<and> cout (setoption g ts) = cout g)"
proof -
  have parse: "setoption g ts =
     (if Options g (option_name ts) \<noteq> None
      then g\<lparr>Options := (Options g)(option_name ts \<mapsto> option_value ts)\<rparr>
      else g\<lparr>cout := cout g @ ''No such option: '' @ option_name ts @ [endl]\<rparr>)"
    using assms by (intro setoption_parse tokens_nonempty)
  have line: "count_list (''No such option: '' @ option_name ts @ [endl]) endl = 1"
    using assms by (intro diagnostic_one_line option_name_no_endl)
  show ?thesis
    using line by (auto simp: parse)
qed

theorem setoption_unknown_or_known_witness:
  "Options stub_globals ''NotARealOption'' = None
   \<and> setoption stub_globals (tokens ''name NotARealOption value 5'') =
       stub_globals\<lparr>cout := ''No such option: NotARealOption'' @ [endl]\<rparr>
   \<and> Options stub_globals ''Hash'' = Some ''16''
   \<and> setoption stub_globals (tokens ''name Hash value 32'') =
       stub_globals\<lparr>Options := (Options stub_globals)(''Hash'' \<mapsto> ''32'')\<rparr>"
proof -
  have tk1: "tokens ''name NotARealOption value 5'' =
      [''name'', ''NotARealOption'', ''value'', ''5'']"
    by (simp add: tokens.simps isspace_def)
  have tk2: "tokens ''name Hash value 32'' = [''name'', ''Hash'', ''value'', ''32'']"
    by (simp add: tokens.simps isspace_def)
  have tok1: "list_all is_token (tokens ''name NotARealOption value 5'')"
    by (rule tokens_are_tokens)
  have tok2: "list_all is_token (tokens ''name Hash value 32'')"
    by (rule tokens_are_tokens)
  have name1: "option_name (tokens ''name NotARealOption value 5'') = ''NotARealOption''"
    by (simp add: tk1 option_name_def)
  have name2: "option_name (tokens ''name Hash value 32'') = ''Hash''"
    by (simp add: tk2 option_name_def)
  have val2: "option_value (tokens ''name Hash value 32'') = ''32''"
    by (simp add: tk2 option_value_def)
  have absent: "Options stub_globals ''NotARealOption'' = None"
    by (simp add: stub_globals_def)
  have present: "Options stub_globals ''Hash'' = Some ''16''"
    by (simp add: stub_globals_def)
  have out: "cout stub_globals = []"
    by (simp add: stub_globals_def)
  have unknown: "setoption stub_globals (tokens ''name NotARealOption value 5'') =
      stub_globals\<lparr>cout := ''No such option: NotARealOption'' @ [endl]\<rparr>"
    using setoption_unknown_or_known [OF tok1, of stub_globals]
    by (simp add: name1 absent out)
  have known: "setoption stub_globals (tokens ''name Hash value 32'') =
      stub_globals\<lparr>Options := (Options stub_globals)(''Hash'' \<mapsto> ''32'')\<rparr>"
    using setoption_unknown_or_known [OF tok2, of stub_globals]
    by (simp add: name2 val2 present)
  show ?thesis
    using absent present unknown known by blast
qed

section \<open>The score formatter\<close>

lemma cdiv_nonneg: "0 \<le> a \<Longrightarrow> 0 < b \<Longrightarrow> cdiv a b = a div b"
  by (cases "a = 0") (simp_all add: cdiv_def)

lemma cdiv_minus: "cdiv (- a) b = - cdiv a b"
  by (simp add: cdiv_def)

text \<open>
  Claim C3. The formatter takes the centipawn branch exactly when
  \<open>|s| < VALUE_MATE - MAX_PLY\<close>: at \<open>s = VALUE_MATE - MAX_PLY - 1\<close> and at its negative it
  writes \<open>cp\<close> and the quotient of \<open>s * 100\<close> by \<open>PawnValueEg\<close>, at \<open>s = VALUE_MATE - MAX_PLY\<close>
  and at its negative it writes \<open>mate\<close> and a distance. The constants are those of
  \<open>types.h\<close>, with the threshold positive and inside the range that the assertion of
  \<open>UCI::value\<close> admits.
\<close>

theorem value_boundary:
  assumes "MAX_PLY K < VALUE_MATE K"
    and "VALUE_MATE K - MAX_PLY K < VALUE_INFINITE K"
    and "0 < PawnValueEg K"
  shows "uci_value K (VALUE_MATE K - MAX_PLY K - 1) =
           Some (''cp '' @
             ostream_int (cdiv ((VALUE_MATE K - MAX_PLY K - 1) * 100) (PawnValueEg K)))
       \<and> uci_value K (- (VALUE_MATE K - MAX_PLY K - 1)) =
           Some (''cp '' @
             ostream_int (cdiv (- (VALUE_MATE K - MAX_PLY K - 1) * 100) (PawnValueEg K)))
       \<and> uci_value K (VALUE_MATE K - MAX_PLY K) =
           Some (''mate '' @ ostream_int (cdiv (MAX_PLY K + 1) 2))
       \<and> uci_value K (- (VALUE_MATE K - MAX_PLY K)) =
           Some (''mate '' @ ostream_int (cdiv (- MAX_PLY K) 2))
       \<and> ((\<exists>t. uci_value K s = Some (''cp '' @ t)) =
            (- VALUE_INFINITE K < s \<and> s < VALUE_INFINITE K \<and>
             \<bar>s\<bar> < VALUE_MATE K - MAX_PLY K))"
  using assms by (auto simp: uci_value_def)

theorem value_boundary_witness:
  "MAX_PLY stub_consts < VALUE_MATE stub_consts
   \<and> VALUE_MATE stub_consts - MAX_PLY stub_consts < VALUE_INFINITE stub_consts
   \<and> 0 < PawnValueEg stub_consts
   \<and> uci_value stub_consts 31753 = Some ''cp 12803''
   \<and> uci_value stub_consts (- 31753) = Some ''cp -12803''
   \<and> uci_value stub_consts 31754 = Some ''mate 123''
   \<and> uci_value stub_consts (- 31754) = Some ''mate -123''"
proof -
  have h1: "MAX_PLY stub_consts < VALUE_MATE stub_consts"
    by (simp add: stub_consts_def)
  have h2: "VALUE_MATE stub_consts - MAX_PLY stub_consts < VALUE_INFINITE stub_consts"
    by (simp add: stub_consts_def)
  have h3: "0 < PawnValueEg stub_consts"
    by (simp add: stub_consts_def)
  have cp: "ostream_int (cdiv 3175300 248) = ''12803''"
    by (simp add: ostream_int_def cdiv_def ostream_nat.simps char_of_eq_iff)
  have cpn: "ostream_int (cdiv (- 3175300) 248) = ''-12803''"
    by (simp add: ostream_int_def cdiv_def ostream_nat.simps char_of_eq_iff)
  have mate: "ostream_int (cdiv 247 2) = ''123''"
    by (simp add: ostream_int_def cdiv_def ostream_nat.simps char_of_eq_iff)
  have maten: "ostream_int (cdiv (- 246) 2) = ''-123''"
    by (simp add: ostream_int_def cdiv_def ostream_nat.simps char_of_eq_iff)
  from value_boundary [OF h1 h2 h3, of 0] show ?thesis
    using h1 h2 h3 by (simp add: stub_consts_def cp cpn mate maten)
qed

text \<open>
  Claim C4, as amended. For a score \<open>s\<close> of the mate range
  (\<open>VALUE_MATE - MAX_PLY \<le> |s| < VALUE_MATE\<close>) the formatter writes \<open>mate\<close> and \<open>n\<close>, where
  \<open>n = (VALUE_MATE - s + 1) / 2\<close> if \<open>s > 0\<close> and \<open>n = - (VALUE_MATE + s) / 2\<close> if \<open>s < 0\<close>,
  the division truncating. \<open>n\<close> is positive when \<open>s\<close> is positive; when \<open>s\<close> is negative
  \<open>n\<close> is negative or zero, and zero exactly at \<open>s = - (VALUE_MATE - 1)\<close>.
\<close>

theorem value_mate_distance:
  assumes "VALUE_MATE K \<le> VALUE_INFINITE K"
    and "VALUE_MATE K - MAX_PLY K \<le> \<bar>s\<bar>"
    and "\<bar>s\<bar> < VALUE_MATE K"
  shows "(0 < s \<longrightarrow>
            uci_value K s = Some (''mate '' @ ostream_int (cdiv (VALUE_MATE K - s + 1) 2))
          \<and> 0 < cdiv (VALUE_MATE K - s + 1) 2)
       \<and> (s < 0 \<longrightarrow>
            uci_value K s = Some (''mate '' @ ostream_int (- cdiv (VALUE_MATE K + s) 2))
          \<and> - cdiv (VALUE_MATE K + s) 2 \<le> 0
          \<and> ((- cdiv (VALUE_MATE K + s) 2 = 0) = (s = 1 - VALUE_MATE K)))"
proof -
  have branch: "- VALUE_INFINITE K < s \<and> s < VALUE_INFINITE K"
    and mate: "\<not> \<bar>s\<bar> < VALUE_MATE K - MAX_PLY K"
    using assms by auto
  have val: "uci_value K s = Some (''mate '' @
      ostream_int (cdiv (if s > 0 then VALUE_MATE K - s + 1 else - VALUE_MATE K - s) 2))"
    using branch mate by (simp add: uci_value_def)
  have flip: "cdiv (- VALUE_MATE K - s) 2 = - cdiv (VALUE_MATE K + s) 2"
    using cdiv_minus [of "VALUE_MATE K + s" 2] by simp
  have pos: "0 < s \<Longrightarrow> 0 < cdiv (VALUE_MATE K - s + 1) 2"
    using assms by (simp add: cdiv_nonneg)
  have neg: "s < 0 \<Longrightarrow> cdiv (VALUE_MATE K + s) 2 = (VALUE_MATE K + s) div 2"
    using assms by (simp add: cdiv_nonneg)
  have neg_le: "s < 0 \<Longrightarrow> - cdiv (VALUE_MATE K + s) 2 \<le> 0"
    using assms by (simp add: neg)
  have neg_zero: "s < 0 \<Longrightarrow> (- cdiv (VALUE_MATE K + s) 2 = 0) = (s = 1 - VALUE_MATE K)"
    using assms by (auto simp: neg)
  show ?thesis
  proof (intro conjI impI)
    assume "0 < s"
    then show "uci_value K s = Some (''mate '' @ ostream_int (cdiv (VALUE_MATE K - s + 1) 2))"
      by (simp add: val)
  next
    assume "0 < s"
    then show "0 < cdiv (VALUE_MATE K - s + 1) 2" by (rule pos)
  next
    assume "s < 0"
    then show "uci_value K s = Some (''mate '' @ ostream_int (- cdiv (VALUE_MATE K + s) 2))"
      by (simp add: val flip)
  next
    assume "s < 0"
    then show "- cdiv (VALUE_MATE K + s) 2 \<le> 0" by (rule neg_le)
  next
    assume "s < 0"
    then show "(- cdiv (VALUE_MATE K + s) 2 = 0) = (s = 1 - VALUE_MATE K)" by (rule neg_zero)
  qed
qed

theorem value_mate_distance_witness:
  "VALUE_MATE stub_consts \<le> VALUE_INFINITE stub_consts
   \<and> VALUE_MATE stub_consts - MAX_PLY stub_consts \<le> \<bar>31999\<bar>
   \<and> \<bar>31999 :: int\<bar> < VALUE_MATE stub_consts
   \<and> uci_value stub_consts 31999 = Some ''mate 1''
   \<and> VALUE_MATE stub_consts - MAX_PLY stub_consts \<le> \<bar>- 31998\<bar>
   \<and> \<bar>- 31998 :: int\<bar> < VALUE_MATE stub_consts
   \<and> uci_value stub_consts (- 31998) = Some ''mate -1''"
proof -
  have h1: "VALUE_MATE stub_consts \<le> VALUE_INFINITE stub_consts"
    by (simp add: stub_consts_def)
  have p2: "VALUE_MATE stub_consts - MAX_PLY stub_consts \<le> \<bar>31999\<bar>"
    by (simp add: stub_consts_def)
  have p3: "\<bar>31999 :: int\<bar> < VALUE_MATE stub_consts"
    by (simp add: stub_consts_def)
  have n2: "VALUE_MATE stub_consts - MAX_PLY stub_consts \<le> \<bar>- 31998\<bar>"
    by (simp add: stub_consts_def)
  have n3: "\<bar>- 31998 :: int\<bar> < VALUE_MATE stub_consts"
    by (simp add: stub_consts_def)
  have one: "ostream_int (cdiv 2 2) = ''1''"
    by (simp add: ostream_int_def cdiv_def ostream_nat.simps char_of_eq_iff)
  have mone: "ostream_int (- cdiv 2 2) = ''-1''"
    by (simp add: ostream_int_def cdiv_def ostream_nat.simps char_of_eq_iff)
  show ?thesis
    using value_mate_distance [OF h1 p2 p3] value_mate_distance [OF h1 n2 n3] h1 p2 p3 n2 n3
    by (simp add: stub_consts_def one mone)
qed

text \<open>
  The score \<open>- 31999\<close> is in the mate range and negative, and the distance written for it
  is \<open>0\<close>, which has no sign.
\<close>

theorem value_mate_sign_counterexample:
  "VALUE_MATE stub_consts - MAX_PLY stub_consts \<le> \<bar>- 31999\<bar>
   \<and> \<bar>- 31999 :: int\<bar> < VALUE_MATE stub_consts
   \<and> uci_value stub_consts (- 31999) = Some ''mate 0''"
  by (simp add: stub_consts_def uci_value_def ostream_int_def cdiv_def ostream_nat.simps
      char_of_eq_iff)

end
